theory Spec2Isabelle
  imports Main
begin

section \<open>The note store of NoteRoom (utils/storage.ts, types/notes.ts)\<close>

subsection \<open>Data model (types/notes.ts)\<close>

text \<open>
  \<^verbatim>\<open>type NoteType = 'note' | 'todo' | 'snippet'\<close>.
\<close>

datatype NoteType = TNote | TTodo | TSnippet

text \<open>
  \<^verbatim>\<open>interface Note\<close>. The fields \<^verbatim>\<open>id\<close> and \<^verbatim>\<open>type\<close> are called \<open>note_id\<close> and
  \<open>note_type\<close> here. A \<^verbatim>\<open>number\<close> timestamp is an \<open>int\<close> (\<^verbatim>\<open>Date.now()\<close> returns whole
  milliseconds). An optional field is an \<open>option\<close>: \<open>None\<close> stands for a property that
  is missing or \<^verbatim>\<open>undefined\<close>, which the store never tells apart (\<^verbatim>\<open>?.\<close> treats both
  alike and JSON serialisation drops both).

  An id is only ever compared with another id; it is a \<open>string\<close>, a \<open>char\<close> standing
  for the code unit with the same number. The content, the title and the tags are
  searched by \<^verbatim>\<open>filter\<close> and are of the type \<open>jstring\<close>, defined next.
\<close>

text \<open>
  The code units of the text the model can hold: those of U+0000..U+00FF (\<open>Latin c\<close>
  is the code unit with the number of \<open>c\<close>) and the letters of the Greek alphabet, the
  capitals U+0391..U+03A9 (\<open>Capital\<close>), the small letters U+03B1..U+03C9 (\<open>Small\<close>) and
  the final small sigma U+03C2. A JavaScript string with other code units is outside
  the model.
\<close>

datatype greek =
    GkAlpha | GkBeta | GkGamma | GkDelta | GkEpsilon | GkZeta | GkEta | GkTheta
  | GkIota | GkKappa | GkLambda | GkMu | GkNu | GkXi | GkOmicron | GkPi
  | GkRho | GkSigma | GkTau | GkUpsilon | GkPhi | GkChi | GkPsi | GkOmega

datatype codeUnit = Latin char | Capital greek | Small greek | FinalSigma

type_synonym jstring = "codeUnit list"

text \<open>
  The text with the code units of a string literal.
\<close>

definition latin :: "string \<Rightarrow> jstring" where
  "latin s = map Latin s"

record Note =
  note_id :: string
  note_type :: NoteType
  content :: jstring
  createdAt :: int
  updatedAt :: int
  tags :: "jstring list option"
  completed :: "bool option"
  title :: "jstring option"

text \<open>
  \<^verbatim>\<open>interface NoteFilters\<close>: \<^verbatim>\<open>typeFilter?: NoteType | 'all'\<close> is optional, \<open>None\<close> is
  the omitted field.
\<close>

datatype TypeFilter = Only NoteType | AllTypes

record NoteFilters =
  searchQuery :: jstring
  typeFilter :: "TypeFilter option"

subsection \<open>The string primitives used by \<^verbatim>\<open>filter\<close>\<close>

text \<open>
  \<^verbatim>\<open>String.prototype.trim\<close> removes white space and line terminators from both ends.
  Among the code units of the model these are TAB, LF, VT, FF, CR, SPACE and NBSP.
\<close>

fun isWhiteSpace :: "codeUnit \<Rightarrow> bool" where
  "isWhiteSpace (Latin c) = (of_char c \<in> {9, 10, 11, 12, 13, 32, 160 :: nat})"
| "isWhiteSpace _ = False"

definition trim :: "jstring \<Rightarrow> jstring" where
  "trim s = rev (dropWhile isWhiteSpace (rev (dropWhile isWhiteSpace s)))"

text \<open>
  \<^verbatim>\<open>String.prototype.toLowerCase\<close> follows the Unicode default case conversion. Within
  U+0000..U+00FF the letters with a lower-case form are A..Z, U+00C0..U+00D6 and
  U+00D8..U+00DE, each 32 below its lower-case form; every other code unit of that
  range is unchanged.
\<close>

definition isUpper :: "char \<Rightarrow> bool" where
  "isUpper c = (let k = of_char c :: nat in
     (65 \<le> k \<and> k \<le> 90) \<or> (192 \<le> k \<and> k \<le> 214) \<or> (216 \<le> k \<and> k \<le> 222))"

definition lowerChar :: "char \<Rightarrow> char" where
  "lowerChar c = (if isUpper c then char_of (of_char c + 32 :: nat) else c)"

text \<open>
  The lower-case form of one code unit by itself: a Greek capital gives its small
  letter, the capital sigma the small sigma U+03C3.
\<close>

fun lowerUnit :: "codeUnit \<Rightarrow> codeUnit" where
  "lowerUnit (Latin c) = Latin (lowerChar c)"
| "lowerUnit (Capital g) = Small g"
| "lowerUnit (Small g) = Small g"
| "lowerUnit FinalSigma = FinalSigma"

text \<open>
  The capital sigma is the one letter of the model whose lower-case form depends on
  its place (Unicode's condition \<^verbatim>\<open>Final_Sigma\<close>): it becomes the final sigma U+03C2 when
  a cased letter comes before it and none comes after it, case-ignorable characters
  skipped on both sides, and the small sigma U+03C3 otherwise. The cased letters of
  U+0000..U+00FF are A..Z, a..z, U+00AA, U+00B5, U+00BA, U+00C0..U+00D6,
  U+00D8..U+00F6 and U+00F8..U+00FF; the case-ignorable characters are
  U+0027, U+002E, U+003A, U+005E, U+0060, U+00A8, U+00AD, U+00AF, U+00B4, U+00B7 and
  U+00B8. Every Greek letter is cased and none is case-ignorable.
\<close>

fun cased :: "codeUnit \<Rightarrow> bool" where
  "cased (Latin c) = (let k = of_char c :: nat in
     (65 \<le> k \<and> k \<le> 90) \<or> (97 \<le> k \<and> k \<le> 122) \<or> k = 170 \<or> k = 181 \<or> k = 186 \<or>
     (192 \<le> k \<and> k \<le> 214) \<or> (216 \<le> k \<and> k \<le> 246) \<or> (248 \<le> k \<and> k \<le> 255))"
| "cased _ = True"

fun caseIgnorable :: "codeUnit \<Rightarrow> bool" where
  "caseIgnorable (Latin c) =
     (of_char c \<in> {39, 46, 58, 94, 96, 168, 173, 175, 180, 183, 184 :: nat})"
| "caseIgnorable _ = False"

text \<open>
  Whether the first code unit that is not case-ignorable is a cased letter.
\<close>

fun nextIsCased :: "jstring \<Rightarrow> bool" where
  "nextIsCased [] = False"
| "nextIsCased (c # cs) = (if caseIgnorable c then nextIsCased cs else cased c)"

text \<open>
  The conversion from left to right; \<open>passed\<close> holds the code units already passed,
  the nearest first.
\<close>

fun lowerFrom :: "jstring \<Rightarrow> jstring \<Rightarrow> jstring" where
  "lowerFrom passed [] = []"
| "lowerFrom passed (c # cs) =
     (if c = Capital GkSigma
      then (if nextIsCased passed \<and> \<not> nextIsCased cs then FinalSigma else Small GkSigma)
      else lowerUnit c) # lowerFrom (c # passed) cs"

definition toLowerCase :: "jstring \<Rightarrow> jstring" where
  "toLowerCase s = lowerFrom [] s"

text \<open>
  \<^verbatim>\<open>s.includes(q)\<close>: whether \<open>q\<close> occurs in \<open>s\<close> at some position, scanning from the
  left.
\<close>

fun includes_str :: "jstring \<Rightarrow> jstring \<Rightarrow> bool" where
  "includes_str [] q = (q = [])"
| "includes_str (c # cs) q = (take (length q) (c # cs) = q \<or> includes_str cs q)"

subsection \<open>\<^verbatim>\<open>storage.filter\<close>\<close>

text \<open>
  The callback of the first \<^verbatim>\<open>filter\<close> call, with \<open>query\<close> the lower-cased search
  string. \<^verbatim>\<open>note.title?.toLowerCase().includes(query)\<close> is \<^verbatim>\<open>undefined\<close>, hence falsy,
  for a note without title; likewise for the tags.
\<close>

definition noteMatches :: "jstring \<Rightarrow> Note \<Rightarrow> bool" where
  "noteMatches query note =
     (let contentMatch = includes_str (toLowerCase (content note)) query;
          titleMatch = (case title note of
                          None \<Rightarrow> False
                        | Some t \<Rightarrow> includes_str (toLowerCase t) query);
          tagMatch = (case tags note of
                        None \<Rightarrow> False
                      | Some ts \<Rightarrow> list_ex (\<lambda>tag. includes_str (toLowerCase tag) query) ts)
      in contentMatch \<or> titleMatch \<or> tagMatch)"

text \<open>
  \<^verbatim>\<open>filter(notes, filters)\<close>. The guard \<^verbatim>\<open>filters.searchQuery.trim()\<close> is truthy exactly
  when the trimmed string is not empty; the guard
  \<^verbatim>\<open>filters.typeFilter && filters.typeFilter !== 'all'\<close> is truthy exactly when the field
  is present and names a note type.
\<close>

definition filter_notes :: "Note list \<Rightarrow> NoteFilters \<Rightarrow> Note list" where
  "filter_notes notes filters =
     (let filtered = notes;
          filtered = (if trim (searchQuery filters) \<noteq> []
                      then (let query = toLowerCase (searchQuery filters)
                            in filter (noteMatches query) filtered)
                      else filtered);
          filtered = (case typeFilter filters of
                        Some (Only t) \<Rightarrow> filter (\<lambda>note. note_type note = t) filtered
                      | Some AllTypes \<Rightarrow> filtered
                      | None \<Rightarrow> filtered)
      in filtered)"

subsection \<open>The browser around the store\<close>

text \<open>
  The store keeps everything in one \<^verbatim>\<open>localStorage\<close> item, \<^verbatim>\<open>'noteroom-notes'\<close>. The
  model records of that item what the store can observe of it: \<open>None\<close> when
  \<^verbatim>\<open>getItem\<close> returns \<^verbatim>\<open>null\<close>, and otherwise whether the string is empty, is rejected by
  \<^verbatim>\<open>JSON.parse\<close>, or is the text \<^verbatim>\<open>JSON.stringify\<close> writes for a list of notes (which
  \<^verbatim>\<open>JSON.parse\<close> reads back as that list). A string that parses to something other than
  an array of notes is outside the model.
\<close>

datatype payload = Blank | Malformed | Serialized "Note list"

text \<open>
  The world of the store: the item and the lines written with \<^verbatim>\<open>console.error\<close>.
\<close>

record world =
  slot :: "payload option"
  console :: "string list"

text \<open>
  What the browser answers during a call is an argument of the model: the outcome of
  \<^verbatim>\<open>localStorage.setItem\<close> (it throws when the quota is exceeded or storage is
  disabled), the string \<^verbatim>\<open>crypto.randomUUID()\<close> returns, and the value of each
  \<^verbatim>\<open>Date.now()\<close> read.
\<close>

datatype setItem = Stores | Throws

subsection \<open>\<^verbatim>\<open>storage.getAll\<close> and \<^verbatim>\<open>storage.saveAll\<close>\<close>

text \<open>
  \<^verbatim>\<open>getAll()\<close>: \<^verbatim>\<open>if (!stored) return []\<close> covers \<^verbatim>\<open>null\<close> and the empty string; an exception
  of \<^verbatim>\<open>JSON.parse\<close> is caught, logged, and answered with \<^verbatim>\<open>[]\<close>.
\<close>

definition getAll :: "world \<Rightarrow> Note list \<times> world" where
  "getAll w =
     (case slot w of
        None \<Rightarrow> ([], w)
      | Some Blank \<Rightarrow> ([], w)
      | Some Malformed \<Rightarrow>
          ([], w\<lparr>console := console w @ [''Error reading from localStorage:'']\<rparr>)
      | Some (Serialized notes) \<Rightarrow> (notes, w))"

text \<open>
  \<^verbatim>\<open>saveAll(notes)\<close>: an exception of \<^verbatim>\<open>setItem\<close> is caught and logged; the item keeps
  its old value then.
\<close>

definition saveAll :: "setItem \<Rightarrow> Note list \<Rightarrow> world \<Rightarrow> world" where
  "saveAll outcome notes w =
     (case outcome of
        Stores \<Rightarrow> w\<lparr>slot := Some (Serialized notes)\<rparr>
      | Throws \<Rightarrow> w\<lparr>console := console w @ [''Error saving to localStorage:'']\<rparr>)"

subsection \<open>\<^verbatim>\<open>storage.getById\<close>\<close>

text \<open>
  \<^verbatim>\<open>notes.find(note => note.id === id) || null\<close>: the first note with that id, or
  \<^verbatim>\<open>null\<close> (\<open>None\<close>).
\<close>

definition getById :: "string \<Rightarrow> world \<Rightarrow> Note option \<times> world" where
  "getById i w =
     (let (notes, w1) = getAll w
      in (find (\<lambda>note. note_id note = i) notes, w1))"

subsection \<open>\<^verbatim>\<open>storage.create\<close>\<close>

text \<open>
  The argument of \<^verbatim>\<open>create\<close>, \<^verbatim>\<open>Omit<Note, 'id' | 'createdAt' | 'updatedAt'>\<close>.
\<close>

record NoteInput =
  i_type :: NoteType
  i_content :: jstring
  i_tags :: "jstring list option"
  i_completed :: "bool option"
  i_title :: "jstring option"

text \<open>
  \<^verbatim>\<open>create(note)\<close>. The object literal is evaluated in order: \<open>uuid\<close> is the result of
  \<^verbatim>\<open>crypto.randomUUID()\<close>, \<open>t1\<close> of the \<^verbatim>\<open>Date.now()\<close> read for \<^verbatim>\<open>createdAt\<close> and \<open>t2\<close> of the
  \<^verbatim>\<open>Date.now()\<close> read for \<^verbatim>\<open>updatedAt\<close>. The new note is returned whatever \<^verbatim>\<open>saveAll\<close>
  did.
\<close>

definition create :: "string \<Rightarrow> int \<Rightarrow> int \<Rightarrow> setItem \<Rightarrow> NoteInput \<Rightarrow> world \<Rightarrow> Note \<times> world" where
  "create uuid t1 t2 outcome note w =
     (let (notes, w1) = getAll w;
          newNote = \<lparr>note_id = uuid, note_type = i_type note, content = i_content note,
                     createdAt = t1, updatedAt = t2, tags = i_tags note,
                     completed = i_completed note, title = i_title note\<rparr>
      in (newNote, saveAll outcome (notes @ [newNote]) w1))"

subsection \<open>\<^verbatim>\<open>storage.update\<close>\<close>

text \<open>
  The object passed as \<^verbatim>\<open>updates\<close>. Its declared type,
  \<^verbatim>\<open>Partial<Omit<Note, 'id' | 'createdAt'>>\<close>, has no \<^verbatim>\<open>id\<close> and no \<^verbatim>\<open>createdAt\<close>, but the
  spread \<^verbatim>\<open>...updates\<close> copies whatever properties the object has at run time, so the
  model keeps a place for both. For each property \<open>None\<close> means that the object does not
  have it. An optional field of \<^verbatim>\<open>Note\<close> can be present with the value \<^verbatim>\<open>undefined\<close>
  (\<^verbatim>\<open>title: title || undefined\<close> in the editor), which is \<open>Some None\<close>. A required
  field present with the value \<^verbatim>\<open>undefined\<close> would make the merged object something
  other than a \<^verbatim>\<open>Note\<close>; such bundles are outside the model.
\<close>

record NoteUpdates =
  u_id :: "string option"
  u_type :: "NoteType option"
  u_content :: "jstring option"
  u_createdAt :: "int option"
  u_updatedAt :: "int option"
  u_tags :: "jstring list option option"
  u_completed :: "bool option option"
  u_title :: "jstring option option"

text \<open>
  The bundles of the declared type: no \<^verbatim>\<open>id\<close>, no \<^verbatim>\<open>createdAt\<close>.
\<close>

definition declared :: "NoteUpdates \<Rightarrow> bool" where
  "declared u = (u_id u = None \<and> u_createdAt u = None)"

text \<open>
  \<^verbatim>\<open>{...note, ...updates, updatedAt: now}\<close>: a property of \<open>updates\<close> replaces the
  note's; \<^verbatim>\<open>updatedAt\<close> comes last and wins over a \<^verbatim>\<open>updatedAt\<close> of \<open>updates\<close>.
\<close>

definition merge :: "Note \<Rightarrow> NoteUpdates \<Rightarrow> int \<Rightarrow> Note" where
  "merge note u now =
     \<lparr>note_id = (case u_id u of None \<Rightarrow> note_id note | Some v \<Rightarrow> v),
      note_type = (case u_type u of None \<Rightarrow> note_type note | Some v \<Rightarrow> v),
      content = (case u_content u of None \<Rightarrow> content note | Some v \<Rightarrow> v),
      createdAt = (case u_createdAt u of None \<Rightarrow> createdAt note | Some v \<Rightarrow> v),
      updatedAt = now,
      tags = (case u_tags u of None \<Rightarrow> tags note | Some v \<Rightarrow> v),
      completed = (case u_completed u of None \<Rightarrow> completed note | Some v \<Rightarrow> v),
      title = (case u_title u of None \<Rightarrow> title note | Some v \<Rightarrow> v)\<rparr>"

text \<open>
  \<^verbatim>\<open>Array.prototype.findIndex\<close>: the first index whose element satisfies the
  predicate; \<open>None\<close> is the result \<^verbatim>\<open>-1\<close>.
\<close>

fun findIndex :: "('a \<Rightarrow> bool) \<Rightarrow> 'a list \<Rightarrow> nat option" where
  "findIndex P [] = None"
| "findIndex P (x # xs) = (if P x then Some 0 else map_option Suc (findIndex P xs))"

text \<open>
  \<^verbatim>\<open>update(id, updates)\<close>, with \<open>now\<close> the \<^verbatim>\<open>Date.now()\<close> read. The result is
  \<^verbatim>\<open>notes[index]\<close> of the array in memory, whatever \<^verbatim>\<open>saveAll\<close> did.
\<close>

definition update :: "int \<Rightarrow> setItem \<Rightarrow> string \<Rightarrow> NoteUpdates \<Rightarrow> world \<Rightarrow> Note option \<times> world" where
  "update now outcome i updates w =
     (let (notes, w1) = getAll w
      in case findIndex (\<lambda>note. note_id note = i) notes of
           None \<Rightarrow> (None, w1)
         | Some index \<Rightarrow>
             (let notes' = notes[index := merge (notes ! index) updates now]
              in (Some (notes' ! index), saveAll outcome notes' w1)))"

subsection \<open>\<^verbatim>\<open>storage.delete\<close>\<close>

text \<open>
  \<^verbatim>\<open>delete(id)\<close>: every note with that id is filtered out; when the length did not
  change nothing is written and the result is \<^verbatim>\<open>false\<close>.
\<close>

definition delete :: "setItem \<Rightarrow> string \<Rightarrow> world \<Rightarrow> bool \<times> world" where
  "delete outcome i w =
     (let (notes, w1) = getAll w;
          filtered = filter (\<lambda>note. note_id note \<noteq> i) notes
      in if length filtered = length notes then (False, w1)
         else (True, saveAll outcome filtered w1))"

text \<open>
  The collection a caller observes: the result of \<^verbatim>\<open>getAll()\<close>.
\<close>

definition stored :: "world \<Rightarrow> Note list" where
  "stored w = fst (getAll w)"

subsection \<open>The specification's wording of \<^verbatim>\<open>filter\<close>\<close>

text \<open>
  The definitions of this subsection follow the words of the specification, not the
  code; the claims compare \<open>filter_notes\<close> with them.

  \<open>x\<close> is a substring of \<open>s\<close>.
\<close>

definition occursIn :: "jstring \<Rightarrow> jstring \<Rightarrow> bool" where
  "occursIn x s = (\<exists>ps ss. s = ps @ x @ ss)"

text \<open>
  Two characters are the same up to case: they are equal, or one is an upper-case
  letter and the other its lower-case form.
\<close>

fun isUpperUnit :: "codeUnit \<Rightarrow> bool" where
  "isUpperUnit (Latin c) = isUpper c"
| "isUpperUnit (Capital g) = True"
| "isUpperUnit _ = False"

definition sameLetter :: "codeUnit \<Rightarrow> codeUnit \<Rightarrow> bool" where
  "sameLetter a b =
     (a = b \<or> (isUpperUnit a \<and> lowerUnit a = b) \<or> (isUpperUnit b \<and> lowerUnit b = a))"

text \<open>
  A case-insensitive substring match of \<open>q\<close> against \<open>s\<close>: some substring of \<open>s\<close>
  agrees with \<open>q\<close> character by character up to case.
\<close>

definition occursIgnoringCase :: "jstring \<Rightarrow> jstring \<Rightarrow> bool" where
  "occursIgnoringCase q s = (\<exists>x. list_all2 sameLetter x q \<and> occursIn x s)"

text \<open>
  ``The content OR the title OR any tag'' has the property \<open>P\<close>.
\<close>

definition someField :: "(jstring \<Rightarrow> bool) \<Rightarrow> Note \<Rightarrow> bool" where
  "someField P note =
     (P (content note) \<or>
      (\<exists>t. title note = Some t \<and> P t) \<or>
      (\<exists>ts. tags note = Some ts \<and> (\<exists>tag \<in> set ts. P tag)))"

text \<open>
  The conjunction a kept note satisfies: (a) the search string matches when it is not
  empty after trimming, and (b) the note's type is the type filter when the type filter
  is not \<^verbatim>\<open>'all'\<close>, that is, when it names a type.
\<close>

definition satisfies :: "NoteFilters \<Rightarrow> Note \<Rightarrow> bool" where
  "satisfies filters note =
     ((trim (searchQuery filters) \<noteq> [] \<longrightarrow>
         someField (occursIgnoringCase (searchQuery filters)) note) \<and>
      (\<forall>t. typeFilter filters = Some (Only t) \<longrightarrow> note_type note = t))"

text \<open>
  Text within U+0000..U+00FF, and the notes whose content, title and tags are such
  text.
\<close>

fun isLatin1 :: "codeUnit \<Rightarrow> bool" where
  "isLatin1 (Latin c) = True"
| "isLatin1 _ = False"

definition latin1Note :: "Note \<Rightarrow> bool" where
  "latin1Note note =
     (list_all isLatin1 (content note) \<and>
      (case title note of None \<Rightarrow> True | Some t \<Rightarrow> list_all isLatin1 t) \<and>
      (case tags note of None \<Rightarrow> True | Some ts \<Rightarrow> list_all (list_all isLatin1) ts))"

subsection \<open>Sequences of calls\<close>

text \<open>
  A caller's use of the store over time is a list of calls, each with the browser's
  answers during it; \<open>run\<close> performs them from left to right.
\<close>

datatype call =
    Create string int int setItem NoteInput
  | Update int setItem string NoteUpdates
  | Delete setItem string

fun step :: "call \<Rightarrow> world \<Rightarrow> world" where
  "step (Create uuid t1 t2 outcome note) w = snd (create uuid t1 t2 outcome note w)"
| "step (Update now outcome i updates) w = snd (update now outcome i updates w)"
| "step (Delete outcome i) w = snd (delete outcome i w)"

definition run :: "call list \<Rightarrow> world \<Rightarrow> world" where
  "run calls w = fold step calls w"

text \<open>
  The calls that are \<^verbatim>\<open>update\<close> calls with a bundle of the declared type, and the
  calls whose argument is of its declared type.
\<close>

fun declaredUpdate :: "call \<Rightarrow> bool" where
  "declaredUpdate (Update now outcome i updates) = declared updates"
| "declaredUpdate _ = False"

fun wellTyped :: "call \<Rightarrow> bool" where
  "wellTyped (Update now outcome i updates) = declared updates"
| "wellTyped _ = True"

text \<open>
  The \<^verbatim>\<open>Date.now()\<close> reads of a call, in the order they are taken.
\<close>

fun clockReads :: "call \<Rightarrow> int list" where
  "clockReads (Create uuid t1 t2 outcome note) = [t1, t2]"
| "clockReads (Update now outcome i updates) = [now]"
| "clockReads (Delete outcome i) = []"

text \<open>
  Every note has \<open>createdAt \<le> updatedAt\<close> and was last stamped no later than \<open>now\<close>.
\<close>

definition stampsOrdered :: "int \<Rightarrow> Note list \<Rightarrow> bool" where
  "stampsOrdered now notes =
     list_all (\<lambda>n. createdAt n \<le> updatedAt n \<and> updatedAt n \<le> now) notes"

subsection \<open>Example data\<close>

text \<open>
  The two notes of the specification's filter examples, a store holding them, and
  arguments for \<^verbatim>\<open>create\<close> and \<^verbatim>\<open>update\<close>.
\<close>

definition empty_world :: world where
  "empty_world = \<lparr>slot = None, console = []\<rparr>"

definition milk_note :: Note where
  "milk_note = \<lparr>note_id = ''n1'', note_type = TNote, content = latin ''Buy milk'',
     createdAt = 1000, updatedAt = 1000, tags = Some [latin ''home''], completed = None,
     title = None\<rparr>"

definition cleanup_note :: Note where
  "cleanup_note = \<lparr>note_id = ''n2'', note_type = TTodo, content = latin ''Refactor code'',
     createdAt = 1000, updatedAt = 2000, tags = None, completed = Some False,
     title = Some (latin ''Cleanup'')\<rparr>"

definition two_notes_world :: world where
  "two_notes_world = \<lparr>slot = Some (Serialized [milk_note, cleanup_note]), console = []\<rparr>"

definition snippet_input :: NoteInput where
  "snippet_input = \<lparr>i_type = TSnippet, i_content = latin ''let x = 1'', i_tags = None,
     i_completed = None, i_title = Some (latin ''Let'')\<rparr>"

definition done_bundle :: NoteUpdates where
  "done_bundle = \<lparr>u_id = None, u_type = None, u_content = None,
     u_createdAt = None, u_updatedAt = None, u_tags = None, u_completed = Some (Some True),
     u_title = None\<rparr>"

text \<open>
  A bundle outside the declared type: it carries an \<^verbatim>\<open>id\<close> and a \<^verbatim>\<open>createdAt\<close>, as
  a whole note passed as \<^verbatim>\<open>updates\<close> would.
\<close>

definition foreign_bundle :: NoteUpdates where
  "foreign_bundle = \<lparr>u_id = Some ''n9'', u_type = None, u_content = None,
     u_createdAt = Some 9000, u_updatedAt = None, u_tags = None, u_completed = None,
     u_title = None\<rparr>"

text \<open>
  A bundle that sets a new content and carries a \<^verbatim>\<open>createdAt\<close>: outside the declared
  type, but accepted by the type checker when it is passed as a variable and not as an
  object literal.
\<close>

definition restamping_bundle :: NoteUpdates where
  "restamping_bundle = \<lparr>u_id = None, u_type = None, u_content = Some (latin ''x''),
     u_createdAt = Some 9000, u_updatedAt = None, u_tags = None, u_completed = None,
     u_title = None\<rparr>"

text \<open>
  A store holding a note whose id is a version 4 UUID.
\<close>

definition taken_uuid :: string where
  "taken_uuid = ''6f1c2d3e-4b5a-4c7d-8e9f-0a1b2c3d4e5f''"

definition uuid_world :: world where
  "uuid_world = \<lparr>slot = Some (Serialized [milk_note\<lparr>note_id := taken_uuid\<rparr>]),
     console = []\<rparr>"

text \<open>
  A note whose content is the Greek word \<^verbatim>\<open>U+039F U+0394 U+039F U+03A3\<close>, in capitals,
  and the search for its last letter, the capital sigma.
\<close>

definition odos_note :: Note where
  "odos_note = \<lparr>note_id = ''n5'', note_type = TNote,
     content = [Capital GkOmicron, Capital GkDelta, Capital GkOmicron, Capital GkSigma],
     createdAt = 1000, updatedAt = 1000, tags = None, completed = None, title = None\<rparr>"

definition sigma_search :: NoteFilters where
  "sigma_search = \<lparr>searchQuery = [Capital GkSigma], typeFilter = Some AllTypes\<rparr>"

text \<open>
  A sequence of calls on the example store whose clock reads never go back.
\<close>

definition session :: "call list" where
  "session = [Create ''n3'' 3000 3001 Stores snippet_input,
              Update 3005 Stores ''n1'' done_bundle,
              Update 3005 Throws ''n3'' done_bundle,
              Delete Stores ''n2'',
              Create ''n4'' 3010 3010 Throws snippet_input]"

section \<open>Auxiliary facts\<close>

subsection \<open>Reading and writing the item\<close>

lemma slot_getAll: "slot (snd (getAll w)) = slot w"
  by (simp add: getAll_def split: option.splits payload.splits)

lemma stored_getAll: "stored (snd (getAll w)) = stored w"
  by (simp add: stored_def getAll_def split: option.splits payload.splits)

lemma stored_saveAll_Stores: "stored (saveAll Stores notes w) = notes"
  by (simp add: stored_def getAll_def saveAll_def)

lemma stored_saveAll_Throws: "stored (saveAll Throws notes w) = stored w"
  by (simp add: stored_def getAll_def saveAll_def split: option.splits payload.splits)

lemma console_saveAll_Throws:
  "console (saveAll Throws notes w) = console w @ [''Error saving to localStorage:'']"
  by (simp add: saveAll_def)

subsection \<open>The operations in terms of the stored collection\<close>

lemma getById_unfold:
  "getById i w = (find (\<lambda>note. note_id note = i) (stored w), snd (getAll w))"
  by (cases "getAll w") (simp add: getById_def stored_def)

lemma create_unfold:
  "create uuid t1 t2 outcome note w =
     (\<lparr>note_id = uuid, note_type = i_type note, content = i_content note,
       createdAt = t1, updatedAt = t2, tags = i_tags note,
       completed = i_completed note, title = i_title note\<rparr>,
      saveAll outcome
        (stored w @ [\<lparr>note_id = uuid, note_type = i_type note, content = i_content note,
                      createdAt = t1, updatedAt = t2, tags = i_tags note,
                      completed = i_completed note, title = i_title note\<rparr>])
        (snd (getAll w)))"
  by (cases "getAll w") (simp add: create_def stored_def Let_def)

lemma update_unfold:
  "update now outcome i u w =
     (case findIndex (\<lambda>note. note_id note = i) (stored w) of
        None \<Rightarrow> (None, snd (getAll w))
      | Some k \<Rightarrow>
          (Some ((stored w)[k := merge (stored w ! k) u now] ! k),
           saveAll outcome ((stored w)[k := merge (stored w ! k) u now]) (snd (getAll w))))"
  by (cases "getAll w") (simp add: update_def stored_def Let_def split: option.splits)

lemma delete_unfold:
  "delete outcome i w =
     (if length (filter (\<lambda>note. note_id note \<noteq> i) (stored w)) = length (stored w)
      then (False, snd (getAll w))
      else (True, saveAll outcome (filter (\<lambda>note. note_id note \<noteq> i) (stored w))
                    (snd (getAll w))))"
  by (cases "getAll w") (simp add: delete_def stored_def Let_def)

lemma stored_update:
  "stored (snd (update now outcome i u w)) =
     (case findIndex (\<lambda>note. note_id note = i) (stored w) of
        None \<Rightarrow> stored w
      | Some k \<Rightarrow> (case outcome of
                    Stores \<Rightarrow> (stored w)[k := merge (stored w ! k) u now]
                  | Throws \<Rightarrow> stored w))"
  by (simp add: update_unfold stored_getAll stored_saveAll_Stores stored_saveAll_Throws
        split: option.splits setItem.splits)

subsection \<open>Lists\<close>

lemma findIndex_None: "findIndex P xs = None \<longleftrightarrow> (\<forall>x\<in>set xs. \<not> P x)"
  by (induction xs) auto

lemma findIndex_Some:
  "findIndex P xs = Some k \<Longrightarrow> k < length xs \<and> P (xs ! k) \<and> find P xs = Some (xs ! k)"
  by (induction xs arbitrary: k) (auto split: if_splits)

lemma find_None: "find P xs = None \<longleftrightarrow> (\<forall>x\<in>set xs. \<not> P x)"
  by (induction xs) auto

lemma find_append_last:
  "find P (xs @ [x]) = (case find P xs of None \<Rightarrow> (if P x then Some x else None) | Some y \<Rightarrow> Some y)"
  by (induction xs) auto

lemma filter_absent: "i \<notin> f ` set xs \<Longrightarrow> filter (\<lambda>m. f m \<noteq> i) xs = xs"
  by (induction xs) auto

lemma filter_neq_remove1:
  "distinct (map f xs) \<Longrightarrow> n \<in> set xs \<Longrightarrow> filter (\<lambda>m. f m \<noteq> f n) xs = remove1 n xs"
proof (induction xs)
  case Nil
  then show ?case by simp
next
  case (Cons x xs)
  show ?case
  proof (cases "x = n")
    case True
    with Cons.prems have "f n \<notin> f ` set xs" by simp
    then have "\<forall>m\<in>set xs. f m \<noteq> f n" by (metis imageI)
    then have "filter (\<lambda>m. f m \<noteq> f n) xs = xs" by (simp add: filter_id_conv)
    with True show ?thesis by simp
  next
    case False
    with Cons.prems have "n \<in> set xs" "f x \<noteq> f n" "distinct (map f xs)" by auto
    with Cons.IH False show ?thesis by simp
  qed
qed

lemma length_filter_present:
  "n \<in> set xs \<Longrightarrow> length (filter (\<lambda>m. f m \<noteq> f n) xs) \<noteq> length xs"
proof -
  assume "n \<in> set xs"
  then have "filter (\<lambda>m. f m \<noteq> f n) xs \<noteq> xs"
    by (auto simp: filter_id_conv)
  then show ?thesis
    by (metis filter_True length_filter_less nat_neq_iff filter_id_conv)
qed

lemma map_update_same:
  "k < length xs \<Longrightarrow> f y = f (xs ! k) \<Longrightarrow> map f (xs[k := y]) = map f xs"
  by (simp add: map_update list_update_same_conv)

subsection \<open>Updates with a bundle of the declared type\<close>

lemma merge_declared:
  "declared u \<Longrightarrow> note_id (merge n u now) = note_id n \<and> createdAt (merge n u now) = createdAt n"
  by (simp add: merge_def declared_def)

lemma update_declared_frame:
  assumes "declared u"
  shows "map note_id (stored (snd (update now outcome i u w))) = map note_id (stored w) \<and>
         map createdAt (stored (snd (update now outcome i u w))) = map createdAt (stored w)"
proof (cases "findIndex (\<lambda>note. note_id note = i) (stored w)")
  case None
  then show ?thesis by (simp add: stored_update)
next
  case (Some k)
  then have k: "k < length (stored w)"
    using findIndex_Some by fastforce
  show ?thesis
    using Some k merge_declared [OF assms]
    by (cases outcome) (simp_all add: stored_update map_update_same)
qed

lemma run_updates_frame:
  "list_all declaredUpdate calls \<Longrightarrow>
     map note_id (stored (run calls w)) = map note_id (stored w) \<and>
     map createdAt (stored (run calls w)) = map createdAt (stored w)"
proof (induction calls arbitrary: w)
  case Nil
  then show ?case by (simp add: run_def)
next
  case (Cons c calls)
  from Cons.prems obtain now outcome i u where c: "c = Update now outcome i u" and u: "declared u"
    by (cases c) auto
  have "run (c # calls) w = run calls (snd (update now outcome i u w))"
    by (simp add: run_def c)
  with Cons.IH [of "snd (update now outcome i u w)"] Cons.prems update_declared_frame [OF u]
  show ?case by simp
qed

subsection \<open>The order of the stamps\<close>

lemma stampsOrdered_mono: "stampsOrdered a ns \<Longrightarrow> a \<le> b \<Longrightarrow> stampsOrdered b ns"
  by (induction ns) (auto simp: stampsOrdered_def)

lemma stampsOrdered_append:
  "stampsOrdered a (xs @ ys) \<longleftrightarrow> stampsOrdered a xs \<and> stampsOrdered a ys"
  by (simp add: stampsOrdered_def)

lemma stampsOrdered_filter: "stampsOrdered a xs \<Longrightarrow> stampsOrdered a (filter P xs)"
  by (induction xs) (auto simp: stampsOrdered_def)

lemma stampsOrdered_nth: "stampsOrdered a xs \<Longrightarrow> k < length xs \<Longrightarrow>
    createdAt (xs ! k) \<le> updatedAt (xs ! k) \<and> updatedAt (xs ! k) \<le> a"
  by (simp add: stampsOrdered_def list_all_length)

lemma stampsOrdered_list_update:
  "stampsOrdered a xs \<Longrightarrow> createdAt y \<le> updatedAt y \<Longrightarrow> updatedAt y \<le> a \<Longrightarrow>
     stampsOrdered a (xs[k := y])"
  by (auto simp: stampsOrdered_def list_all_iff dest: set_update_subset_insert [THEN subsetD])

lemma stored_create:
  "stored (snd (create uuid t1 t2 outcome note w)) =
     (case outcome of
        Stores \<Rightarrow> stored w @ [fst (create uuid t1 t2 outcome note w)]
      | Throws \<Rightarrow> stored w)"
  by (simp add: create_unfold stored_getAll stored_saveAll_Stores stored_saveAll_Throws
        split: setItem.splits)

lemma stored_delete:
  "stored (snd (delete outcome i w)) =
     (if length (filter (\<lambda>note. note_id note \<noteq> i) (stored w)) = length (stored w)
      then stored w
      else case outcome of
             Stores \<Rightarrow> filter (\<lambda>note. note_id note \<noteq> i) (stored w)
           | Throws \<Rightarrow> stored w)"
  by (simp add: delete_unfold stored_getAll stored_saveAll_Stores stored_saveAll_Throws
        split: setItem.splits)

lemma step_stampsOrdered:
  assumes "stampsOrdered now (stored w)"
      and "sorted (now # clockReads c)"
      and "wellTyped c"
  shows "stampsOrdered (last (now # clockReads c)) (stored (step c w))"
proof (cases c)
  case (Create uuid t1 t2 outcome inp)
  with assms have t: "now \<le> t1" "t1 \<le> t2" by auto
  then have old: "stampsOrdered t2 (stored w)"
    using assms(1) stampsOrdered_mono [of now "stored w" t2] by simp
  have new: "stampsOrdered t2 [fst (create uuid t1 t2 outcome inp w)]"
    using t by (simp add: stampsOrdered_def create_unfold)
  show ?thesis
    using old new
    by (cases outcome) (simp_all add: Create stored_create stampsOrdered_append)
next
  case (Update t outcome i u)
  with assms have t: "now \<le> t" and u: "declared u" by auto
  have old: "stampsOrdered t (stored w)"
    using assms(1) t by (rule stampsOrdered_mono)
  show ?thesis
  proof (cases "findIndex (\<lambda>note. note_id note = i) (stored w)")
    case None
    with old show ?thesis by (simp add: Update stored_update)
  next
    case (Some k)
    then have k: "k < length (stored w)"
      using findIndex_Some by fastforce
    have "createdAt (merge (stored w ! k) u t) \<le> updatedAt (merge (stored w ! k) u t)"
      using stampsOrdered_nth [OF old k] merge_declared [OF u, of "stored w ! k" t]
      by (simp add: merge_def)
    moreover have "updatedAt (merge (stored w ! k) u t) \<le> t"
      by (simp add: merge_def)
    ultimately have "stampsOrdered t ((stored w)[k := merge (stored w ! k) u t])"
      using old by (simp add: stampsOrdered_list_update)
    with old Some show ?thesis
      by (cases outcome) (simp_all add: Update stored_update)
  qed
next
  case (Delete outcome i)
  with assms(1) show ?thesis
    by (cases outcome) (simp_all add: stored_delete stampsOrdered_filter)
qed

lemma sorted_reads_split:
  "sorted (now # rs @ rest) \<Longrightarrow> sorted (now # rs) \<and> sorted (last (now # rs) # rest)"
  by (induction rs arbitrary: now) (auto simp: sorted_append)

lemma run_stampsOrdered:
  "stampsOrdered now (stored w) \<Longrightarrow> sorted (now # concat (map clockReads calls)) \<Longrightarrow>
   list_all wellTyped calls \<Longrightarrow>
     stampsOrdered (last (now # concat (map clockReads calls))) (stored (run calls w))"
proof (induction calls arbitrary: now w)
  case Nil
  then show ?case by (simp add: run_def)
next
  case (Cons c calls)
  let ?now' = "last (now # clockReads c)"
  from Cons.prems(2) have s: "sorted (now # clockReads c)"
    "sorted (?now' # concat (map clockReads calls))"
    using sorted_reads_split [of now "clockReads c" "concat (map clockReads calls)"] by simp_all
  have "stampsOrdered ?now' (stored (step c w))"
    using Cons.prems(1) s(1) Cons.prems(3) by (intro step_stampsOrdered) simp_all
  moreover have "list_all wellTyped calls"
    using Cons.prems(3) by simp
  ultimately have "stampsOrdered (last (?now' # concat (map clockReads calls)))
               (stored (run calls (step c w)))"
    using s(2) by (intro Cons.IH)
  moreover have "last (?now' # concat (map clockReads calls))
                   = last (now # concat (map clockReads (c # calls)))"
    by (simp add: last_append)
  ultimately show ?case by (simp add: run_def)
qed

lemma sorted_reads_take:
  "sorted (now # concat (map f calls)) \<Longrightarrow> sorted (now # concat (map f (take k calls)))"
proof -
  assume s: "sorted (now # concat (map f calls))"
  have "concat (map f calls) = concat (map f (take k calls)) @ concat (map f (drop k calls))"
    by (metis append_take_drop_id concat_append map_append)
  with s have "sorted ((now # concat (map f (take k calls))) @ concat (map f (drop k calls)))"
    by simp
  then show ?thesis
    unfolding sorted_append by blast
qed

lemma list_all_take: "list_all P xs \<Longrightarrow> list_all P (take k xs)"
  by (auto simp: list_all_iff dest: in_set_takeD)

subsection \<open>Substrings and case\<close>

lemma includes_str_iff: "includes_str s q \<longleftrightarrow> occursIn q s"
proof (induction s)
  case Nil
  show ?case by (auto simp: occursIn_def)
next
  case (Cons c cs)
  have "take (length q) (c # cs) = q \<longleftrightarrow> (\<exists>ss. c # cs = q @ ss)"
    by (metis append_eq_conv_conj)
  moreover have "occursIn q (c # cs) \<longleftrightarrow> (\<exists>ss. c # cs = q @ ss) \<or> occursIn q cs"
    unfolding occursIn_def
  proof
    assume "\<exists>ps ss. c # cs = ps @ q @ ss"
    then obtain ps ss where e: "c # cs = ps @ q @ ss" by blast
    show "(\<exists>ss. c # cs = q @ ss) \<or> (\<exists>ps ss. cs = ps @ q @ ss)"
    proof (cases ps)
      case Nil
      with e show ?thesis by auto
    next
      case (Cons p ps')
      with e have "cs = ps' @ q @ ss" by simp
      then show ?thesis by blast
    qed
  next
    assume "(\<exists>ss. c # cs = q @ ss) \<or> (\<exists>ps ss. cs = ps @ q @ ss)"
    then show "\<exists>ps ss. c # cs = ps @ q @ ss"
    proof
      assume "\<exists>ss. c # cs = q @ ss"
      then obtain ss where "c # cs = [] @ q @ ss" by auto
      then show ?thesis by blast
    next
      assume "\<exists>ps ss. cs = ps @ q @ ss"
      then obtain ps ss where "c # cs = (c # ps) @ q @ ss" by auto
      then show ?thesis by blast
    qed
  qed
  ultimately show ?case using Cons.IH by simp
qed

lemma of_char_lowerChar: "isUpper c \<Longrightarrow> (of_char (lowerChar c) :: nat) = of_char c + 32"
  by (auto simp: isUpper_def lowerChar_def Let_def)

lemma lowerChar_not_upper: "\<not> isUpper c \<Longrightarrow> lowerChar c = c"
  by (simp add: lowerChar_def)

lemma not_isUpper_lowerChar: "\<not> isUpper (lowerChar c)"
proof (cases "isUpper c")
  case True
  then show ?thesis
    using of_char_lowerChar [OF True] by (auto simp: isUpper_def Let_def)
next
  case False
  then show ?thesis by (simp add: lowerChar_def)
qed

lemma lowerChar_idem: "lowerChar (lowerChar c) = lowerChar c"
  by (simp add: lowerChar_not_upper not_isUpper_lowerChar)

lemma lowerChar_eq_iff:
  "lowerChar a = lowerChar b \<longleftrightarrow>
     a = b \<or> (isUpper a \<and> lowerChar a = b) \<or> (isUpper b \<and> lowerChar b = a)"
proof
  assume e: "lowerChar a = lowerChar b"
  show "a = b \<or> (isUpper a \<and> lowerChar a = b) \<or> (isUpper b \<and> lowerChar b = a)"
  proof (cases "isUpper a")
    case a: True
    show ?thesis
    proof (cases "isUpper b")
      case True
      with a e have "(of_char a :: nat) + 32 = of_char b + 32"
        by (metis of_char_lowerChar)
      then have "a = b" by simp
      then show ?thesis by simp
    next
      case False
      with a e show ?thesis by (simp add: lowerChar_not_upper)
    qed
  next
    case a: False
    show ?thesis
    proof (cases "isUpper b")
      case True
      with a e show ?thesis by (simp add: lowerChar_not_upper)
    next
      case False
      with a e show ?thesis by (simp add: lowerChar_not_upper)
    qed
  qed
next
  assume "a = b \<or> (isUpper a \<and> lowerChar a = b) \<or> (isUpper b \<and> lowerChar b = a)"
  then show "lowerChar a = lowerChar b"
    by (auto simp: lowerChar_idem)
qed

lemma lowerUnit_eq_iff: "lowerUnit a = lowerUnit b \<longleftrightarrow> sameLetter a b"
proof (cases a)
  case (Latin x)
  then show ?thesis
    by (cases b) (auto simp: sameLetter_def lowerChar_eq_iff)
next
  case (Capital g)
  then show ?thesis
    by (cases b) (auto simp: sameLetter_def)
next
  case (Small g)
  then show ?thesis
    by (cases b) (auto simp: sameLetter_def)
next
  case FinalSigma
  then show ?thesis
    by (cases b) (auto simp: sameLetter_def)
qed

lemma map_lowerUnit_eq_iff:
  "map lowerUnit x = map lowerUnit q \<longleftrightarrow> list_all2 sameLetter x q"
proof (induction x arbitrary: q)
  case Nil
  show ?case by auto
next
  case (Cons a x)
  then show ?case
    by (cases q) (auto simp: lowerUnit_eq_iff)
qed

lemma lowerFrom_without_sigma:
  "Capital GkSigma \<notin> set s \<Longrightarrow> lowerFrom passed s = map lowerUnit s"
  by (induction s arbitrary: passed) auto

lemma toLowerCase_latin1: "list_all isLatin1 s \<Longrightarrow> toLowerCase s = map lowerUnit s"
proof -
  assume "list_all isLatin1 s"
  then have "Capital GkSigma \<notin> set s"
    by (auto simp: list_all_iff)
  then show ?thesis
    by (simp add: toLowerCase_def lowerFrom_without_sigma)
qed

lemma occursIn_lowered:
  "occursIn (map lowerUnit q) (map lowerUnit s) \<longleftrightarrow> occursIgnoringCase q s"
proof
  assume "occursIn (map lowerUnit q) (map lowerUnit s)"
  then obtain ps ss where "ps @ (map lowerUnit q @ ss) = map lowerUnit s"
    by (auto simp: occursIn_def)
  then obtain ps' r where s: "s = ps' @ r" and r: "map lowerUnit q @ ss = map lowerUnit r"
    unfolding append_eq_map_conv by blast
  from r obtain x ss' where r': "r = x @ ss'" and x: "map lowerUnit q = map lowerUnit x"
    unfolding append_eq_map_conv by blast
  from x have "list_all2 sameLetter x q"
    by (simp add: map_lowerUnit_eq_iff [symmetric])
  moreover from s r' have "occursIn x s"
    by (auto simp: occursIn_def)
  ultimately show "occursIgnoringCase q s"
    by (auto simp: occursIgnoringCase_def)
next
  assume "occursIgnoringCase q s"
  then obtain x ps ss where x: "list_all2 sameLetter x q" and s: "s = ps @ x @ ss"
    by (auto simp: occursIgnoringCase_def occursIn_def)
  from x have "map lowerUnit x = map lowerUnit q"
    by (simp add: map_lowerUnit_eq_iff)
  with s have "map lowerUnit s = map lowerUnit ps @ map lowerUnit q @ map lowerUnit ss"
    by simp
  then show "occursIn (map lowerUnit q) (map lowerUnit s)"
    unfolding occursIn_def by blast
qed

lemma occursIn_toLowerCase:
  "list_all isLatin1 q \<Longrightarrow> list_all isLatin1 s \<Longrightarrow>
     occursIn (toLowerCase q) (toLowerCase s) \<longleftrightarrow> occursIgnoringCase q s"
  by (simp add: toLowerCase_latin1 occursIn_lowered)

lemma noteMatches_iff:
  "noteMatches query note \<longleftrightarrow> someField (\<lambda>s. occursIn query (toLowerCase s)) note"
  by (auto simp: noteMatches_def someField_def includes_str_iff list_ex_iff
        split: option.splits)

lemma noteMatches_latin1:
  assumes q: "list_all isLatin1 q" and n: "latin1Note note"
  shows "noteMatches (toLowerCase q) note \<longleftrightarrow> someField (occursIgnoringCase q) note"
proof -
  have c: "occursIn (toLowerCase q) (toLowerCase (content note))
             \<longleftrightarrow> occursIgnoringCase q (content note)"
    using q n by (simp add: occursIn_toLowerCase latin1Note_def)
  have t: "occursIn (toLowerCase q) (toLowerCase t) \<longleftrightarrow> occursIgnoringCase q t"
    if "title note = Some t" for t
    using q n that by (simp add: occursIn_toLowerCase latin1Note_def)
  have g: "occursIn (toLowerCase q) (toLowerCase tag) \<longleftrightarrow> occursIgnoringCase q tag"
    if "tags note = Some ts" and "tag \<in> set ts" for ts tag
  proof -
    from n that have "list_all isLatin1 tag"
      by (simp add: latin1Note_def list_all_iff)
    with q show ?thesis by (simp add: occursIn_toLowerCase)
  qed
  show ?thesis
    unfolding noteMatches_iff someField_def using c t g by blast
qed

lemma trim_whitespace: "list_all isWhiteSpace q \<Longrightarrow> trim q = []"
  by (auto simp: trim_def list_all_iff dest: set_dropWhileD)

lemma filter_notes_unfold:
  "filter_notes notes filters =
     filter (\<lambda>note. (trim (searchQuery filters) \<noteq> [] \<longrightarrow>
                        noteMatches (toLowerCase (searchQuery filters)) note) \<and>
                     (\<forall>t. typeFilter filters = Some (Only t) \<longrightarrow> note_type note = t)) notes"
proof (cases "typeFilter filters")
  case None
  then show ?thesis
    by (simp add: filter_notes_def)
next
  case (Some tf)
  then show ?thesis
    by (cases tf) (auto simp: filter_notes_def conj_commute intro: filter_cong)
qed

subsection \<open>The example store\<close>

lemma stored_two_notes_world: "stored two_notes_world = [milk_note, cleanup_note]"
  by (simp add: stored_def getAll_def two_notes_world_def)

lemma getAll_two_notes_world: "snd (getAll two_notes_world) = two_notes_world"
  by (simp add: getAll_def two_notes_world_def)

section \<open>The claims about reading\<close>

text \<open>
  C7. \<^verbatim>\<open>getAll\<close> returns the empty sequence, and no error, when nothing is persisted
  (\<^verbatim>\<open>getItem\<close> returns \<^verbatim>\<open>null\<close>, or the item is the empty string) and when the persisted
  payload fails to parse; the parse failure is logged with \<^verbatim>\<open>console.error\<close> and the
  caller only sees the empty sequence.
\<close>

theorem getAll_empty_or_corrupt:
  "(slot w = None \<longrightarrow> getAll w = ([], w)) \<and>
   (slot w = Some Blank \<longrightarrow> getAll w = ([], w)) \<and>
   (slot w = Some Malformed \<longrightarrow>
      getAll w = ([], w\<lparr>console := console w @ [''Error reading from localStorage:'']\<rparr>))"
  by (simp add: getAll_def)

theorem getAll_empty_or_corrupt_witness:
  "slot empty_world = None \<and>
   getAll empty_world = ([], empty_world) \<and>
   slot \<lparr>slot = Some Blank, console = []\<rparr> = Some Blank \<and>
   getAll \<lparr>slot = Some Blank, console = []\<rparr> = ([], \<lparr>slot = Some Blank, console = []\<rparr>) \<and>
   slot \<lparr>slot = Some Malformed, console = []\<rparr> = Some Malformed \<and>
   getAll \<lparr>slot = Some Malformed, console = []\<rparr>
     = ([], \<lparr>slot = Some Malformed, console = [''Error reading from localStorage:'']\<rparr>)"
  using getAll_empty_or_corrupt [of empty_world]
        getAll_empty_or_corrupt [of "\<lparr>slot = Some Blank, console = []\<rparr>"]
        getAll_empty_or_corrupt [of "\<lparr>slot = Some Malformed, console = []\<rparr>"]
  by (simp add: empty_world_def)

section \<open>The claims about \<^verbatim>\<open>update\<close>\<close>

text \<open>
  C4. For every id that does not occur in the persisted collection and every bundle,
  \<^verbatim>\<open>update\<close> returns \<^verbatim>\<open>null\<close> and writes nothing: its only effect is that of the
  \<^verbatim>\<open>getAll\<close> it starts with, the item is untouched, and the collection observed
  through \<^verbatim>\<open>getAll\<close> is the same before and after.
\<close>

theorem update_missing_id:
  assumes "i \<notin> note_id ` set (stored w)"
  shows "update now outcome i u w = (None, snd (getAll w)) \<and>
         slot (snd (update now outcome i u w)) = slot w \<and>
         stored (snd (update now outcome i u w)) = stored w"
proof -
  have "findIndex (\<lambda>note. note_id note = i) (stored w) = None"
    using assms by (auto simp: findIndex_None)
  then have "update now outcome i u w = (None, snd (getAll w))"
    by (simp add: update_unfold)
  then show ?thesis
    by (simp add: slot_getAll stored_getAll)
qed

theorem update_missing_id_witness:
  "''n3'' \<notin> note_id ` set (stored two_notes_world) \<and>
   update 3000 Stores ''n3'' done_bundle two_notes_world = (None, two_notes_world) \<and>
   stored (snd (update 3000 Stores ''n3'' done_bundle two_notes_world))
     = [milk_note, cleanup_note]"
proof -
  have s: "stored two_notes_world = [milk_note, cleanup_note]"
    and g: "snd (getAll two_notes_world) = two_notes_world"
    by (simp_all add: stored_def getAll_def two_notes_world_def)
  have h: "''n3'' \<notin> note_id ` set (stored two_notes_world)"
    by (simp add: s milk_note_def cleanup_note_def)
  show ?thesis
    using h update_missing_id [OF h, of 3000 Stores done_bundle] by (simp add: s g)
qed

text \<open>
  C2 (as amended). For every bundle of the declared type, which has no \<^verbatim>\<open>id\<close> and no
  \<^verbatim>\<open>createdAt\<close>, the note \<^verbatim>\<open>update\<close> returns has the id and the \<^verbatim>\<open>createdAt\<close> of the
  stored note it was merged from; and after any number of \<^verbatim>\<open>update\<close> calls with such
  bundles every note of the collection still has its id and its \<^verbatim>\<open>createdAt\<close>.
\<close>

theorem update_keeps_id_and_createdAt:
  "(declared u \<and> find (\<lambda>note. note_id note = i) (stored w) = Some n \<longrightarrow>
      map_option note_id (fst (update now outcome i u w)) = Some (note_id n) \<and>
      map_option createdAt (fst (update now outcome i u w)) = Some (createdAt n)) \<and>
   (list_all declaredUpdate calls \<longrightarrow>
      map note_id (stored (run calls w)) = map note_id (stored w) \<and>
      map createdAt (stored (run calls w)) = map createdAt (stored w))"
proof (intro conjI impI)
  assume a: "declared u \<and> find (\<lambda>note. note_id note = i) (stored w) = Some n"
  then obtain k where k: "findIndex (\<lambda>note. note_id note = i) (stored w) = Some k"
    by (cases "findIndex (\<lambda>note. note_id note = i) (stored w)")
       (auto simp: findIndex_None find_None [symmetric])
  then have kn: "k < length (stored w)" "stored w ! k = n"
    using findIndex_Some [OF k] a by auto
  have r: "fst (update now outcome i u w) = Some (merge n u now)"
    using k kn by (simp add: update_unfold)
  show "map_option note_id (fst (update now outcome i u w)) = Some (note_id n)"
    using a by (simp add: r merge_declared)
  show "map_option createdAt (fst (update now outcome i u w)) = Some (createdAt n)"
    using a by (simp add: r merge_declared)
next
  assume "list_all declaredUpdate calls"
  then show "map note_id (stored (run calls w)) = map note_id (stored w)"
    and "map createdAt (stored (run calls w)) = map createdAt (stored w)"
    using run_updates_frame by blast+
qed

theorem update_keeps_id_and_createdAt_witness:
  "declared done_bundle \<and>
   find (\<lambda>note. note_id note = ''n1'') (stored two_notes_world) = Some milk_note \<and>
   map_option note_id (fst (update 3000 Stores ''n1'' done_bundle two_notes_world))
     = Some ''n1'' \<and>
   map_option createdAt (fst (update 3000 Stores ''n1'' done_bundle two_notes_world))
     = Some 1000 \<and>
   list_all declaredUpdate
     [Update 3000 Stores ''n1'' done_bundle, Update 4000 Throws ''n2'' done_bundle] \<and>
   map note_id (stored (run
     [Update 3000 Stores ''n1'' done_bundle, Update 4000 Throws ''n2'' done_bundle]
     two_notes_world)) = [''n1'', ''n2''] \<and>
   map createdAt (stored (run
     [Update 3000 Stores ''n1'' done_bundle, Update 4000 Throws ''n2'' done_bundle]
     two_notes_world)) = [1000, 1000]"
proof -
  have d: "declared done_bundle"
    by (simp add: declared_def done_bundle_def)
  have f: "find (\<lambda>note. note_id note = ''n1'') (stored two_notes_world) = Some milk_note"
    by (simp add: stored_two_notes_world milk_note_def)
  have l: "list_all declaredUpdate
     [Update 3000 Stores ''n1'' done_bundle, Update 4000 Throws ''n2'' done_bundle]"
    by (simp add: d)
  show ?thesis
    using d f l
      update_keeps_id_and_createdAt [where u = done_bundle and i = "''n1''"
        and w = two_notes_world and n = milk_note and now = 3000 and outcome = Stores
        and calls = "[Update 3000 Stores ''n1'' done_bundle,
                      Update 4000 Throws ''n2'' done_bundle]"]
    by (simp add: stored_two_notes_world milk_note_def cleanup_note_def)
qed

text \<open>
  The claim as stated, for a bundle that does contain an \<^verbatim>\<open>id\<close> and a \<^verbatim>\<open>createdAt\<close>,
  fails: the spread \<^verbatim>\<open>...updates\<close> overwrites both.
\<close>

theorem update_overwrites_id_counterexample:
  "find (\<lambda>note. note_id note = ''n1'') (stored two_notes_world) = Some milk_note \<and>
   map_option note_id (fst (update 3000 Stores ''n1'' foreign_bundle two_notes_world))
     \<noteq> Some (note_id milk_note) \<and>
   map_option createdAt (fst (update 3000 Stores ''n1'' foreign_bundle two_notes_world))
     \<noteq> Some (createdAt milk_note)"
  by (simp add: update_unfold)
     (simp add: stored_def getAll_def two_notes_world_def milk_note_def cleanup_note_def
        foreign_bundle_def merge_def)

section \<open>The claims about \<^verbatim>\<open>create\<close>\<close>

text \<open>
  C3 (as amended). For every input bundle \<^verbatim>\<open>create\<close> returns the materialized note: it
  has the input's fields and the id that \<^verbatim>\<open>crypto.randomUUID()\<close> generated, which the
  store does not compare with the ids of the collection, and both its stamps are the
  current time, equal to each other, when the clock does not advance during the call.
  When the write succeeds, the persisted collection is the previous one with the note
  appended at its end; when the write fails, the failure is logged, the persisted
  collection is the previous one, and the note is returned all the same.
\<close>

theorem create_spec:
  "note_id (fst (create uuid t1 t2 outcome inp w)) = uuid \<and>
   note_type (fst (create uuid t1 t2 outcome inp w)) = i_type inp \<and>
   content (fst (create uuid t1 t2 outcome inp w)) = i_content inp \<and>
   tags (fst (create uuid t1 t2 outcome inp w)) = i_tags inp \<and>
   completed (fst (create uuid t1 t2 outcome inp w)) = i_completed inp \<and>
   title (fst (create uuid t1 t2 outcome inp w)) = i_title inp \<and>
   (t1 = t2 \<longrightarrow>
      createdAt (fst (create uuid t1 t2 outcome inp w)) = t1 \<and>
      updatedAt (fst (create uuid t1 t2 outcome inp w)) = t1) \<and>
   stored (snd (create uuid t1 t2 Stores inp w))
     = stored w @ [fst (create uuid t1 t2 Stores inp w)] \<and>
   stored (snd (create uuid t1 t2 Throws inp w)) = stored w \<and>
   console (snd (create uuid t1 t2 Throws inp w))
     = console (snd (getAll w)) @ [''Error saving to localStorage:'']"
proof (intro conjI impI)
  show "stored (snd (create uuid t1 t2 Stores inp w))
          = stored w @ [fst (create uuid t1 t2 Stores inp w)]"
    by (simp add: create_unfold stored_saveAll_Stores)
  show "stored (snd (create uuid t1 t2 Throws inp w)) = stored w"
    by (simp add: create_unfold stored_saveAll_Throws stored_getAll)
  show "console (snd (create uuid t1 t2 Throws inp w))
          = console (snd (getAll w)) @ [''Error saving to localStorage:'']"
    by (simp add: create_unfold console_saveAll_Throws)
qed (simp_all add: create_unfold)

theorem create_spec_witness:
  "note_id (fst (create ''n3'' 3000 3000 Stores snippet_input two_notes_world)) = ''n3'' \<and>
   content (fst (create ''n3'' 3000 3000 Stores snippet_input two_notes_world))
     = latin ''let x = 1'' \<and>
   (3000 :: int) = 3000 \<and>
   createdAt (fst (create ''n3'' 3000 3000 Stores snippet_input two_notes_world)) = 3000 \<and>
   updatedAt (fst (create ''n3'' 3000 3000 Stores snippet_input two_notes_world)) = 3000 \<and>
   stored (snd (create ''n3'' 3000 3000 Stores snippet_input two_notes_world))
     = [milk_note, cleanup_note,
        fst (create ''n3'' 3000 3000 Stores snippet_input two_notes_world)] \<and>
   stored (snd (create ''n3'' 3000 3000 Throws snippet_input two_notes_world))
     = [milk_note, cleanup_note]"
  using create_spec [of "''n3''" 3000 3000 Stores snippet_input two_notes_world]
  by (simp add: stored_two_notes_world snippet_input_def)

text \<open>
  The claim as stated fails in three ways. The store takes the generated id as it
  comes: when the generator returns an id that a note of the collection has, two notes
  share it. The two stamps come from two clock reads, which can differ. And a write
  that fails leaves the collection without the new note.
\<close>

theorem create_id_stamps_write_counterexample:
  "distinct (map note_id (stored uuid_world)) \<and>
   \<not> distinct (map note_id
        (stored (snd (create taken_uuid 3000 3000 Stores snippet_input uuid_world)))) \<and>
   createdAt (fst (create ''n3'' 3000 3001 Stores snippet_input two_notes_world))
     \<noteq> updatedAt (fst (create ''n3'' 3000 3001 Stores snippet_input two_notes_world)) \<and>
   stored (snd (create ''n3'' 3000 3000 Throws snippet_input two_notes_world))
     \<noteq> stored two_notes_world
         @ [fst (create ''n3'' 3000 3000 Throws snippet_input two_notes_world)]"
proof -
  have u: "stored uuid_world = [milk_note\<lparr>note_id := taken_uuid\<rparr>]"
    by (simp add: stored_def getAll_def uuid_world_def)
  show ?thesis
    by (simp add: create_unfold stored_saveAll_Stores stored_saveAll_Throws stored_getAll u)
qed

text \<open>
  C6 (as amended). For every input bundle, when the generated id is fresh and the write
  succeeds, \<^verbatim>\<open>create\<close> followed by \<^verbatim>\<open>getById\<close> with the id of the returned note yields
  the note \<^verbatim>\<open>create\<close> returned.
\<close>

theorem create_then_getById:
  assumes "uuid \<notin> note_id ` set (stored w)"
  shows "fst (getById (note_id (fst (create uuid t1 t2 Stores note w)))
                (snd (create uuid t1 t2 Stores note w)))
           = Some (fst (create uuid t1 t2 Stores note w))"
proof -
  have "find (\<lambda>n. note_id n = uuid) (stored w) = None"
    using assms by (auto simp: find_None)
  then show ?thesis
    by (simp add: create_unfold getById_unfold stored_saveAll_Stores find_append_last)
qed

theorem create_then_getById_witness:
  "''n3'' \<notin> note_id ` set (stored two_notes_world) \<and>
   fst (getById ''n3'' (snd (create ''n3'' 3000 3001 Stores snippet_input two_notes_world)))
     = Some \<lparr>note_id = ''n3'', note_type = TSnippet, content = latin ''let x = 1'',
             createdAt = 3000, updatedAt = 3001, tags = None, completed = None,
             title = Some (latin ''Let'')\<rparr>"
proof -
  have a: "''n3'' \<notin> note_id ` set (stored two_notes_world)"
    by (simp add: stored_two_notes_world milk_note_def cleanup_note_def)
  show ?thesis
    using a create_then_getById [OF a, of 3000 3001 snippet_input]
    by (simp add: create_unfold snippet_input_def)
qed

text \<open>
  The claim as stated fails when the write fails: \<^verbatim>\<open>create\<close> returns the note, nothing
  was persisted, and \<^verbatim>\<open>getById\<close> answers \<^verbatim>\<open>null\<close>.
\<close>

theorem create_then_getById_counterexample:
  "''n3'' \<notin> note_id ` set (stored two_notes_world) \<and>
   fst (getById (note_id (fst (create ''n3'' 3000 3000 Throws snippet_input two_notes_world)))
          (snd (create ''n3'' 3000 3000 Throws snippet_input two_notes_world)))
     \<noteq> Some (fst (create ''n3'' 3000 3000 Throws snippet_input two_notes_world))"
  by (simp add: create_unfold getById_unfold stored_saveAll_Throws stored_getAll
        stored_two_notes_world)
     (simp add: milk_note_def cleanup_note_def)

section \<open>The claims about \<^verbatim>\<open>delete\<close>\<close>

text \<open>
  C5 (as amended). For every collection whose ids are unique: \<^verbatim>\<open>delete\<close> on an id
  present in the collection returns \<^verbatim>\<open>true\<close> and, when the write succeeds, the persisted
  collection is the previous one without the note of that id, every other note
  unchanged and in place; when the write fails, the failure is logged and the
  persisted collection is the previous one. \<^verbatim>\<open>delete\<close> on an id not present returns
  \<^verbatim>\<open>false\<close>, writes nothing and leaves the collection unchanged.
\<close>

theorem delete_spec:
  assumes "distinct (map note_id (stored w))"
  shows "(\<forall>n. n \<in> set (stored w) \<and> note_id n = i \<longrightarrow>
            fst (delete outcome i w) = True \<and>
            stored (snd (delete Stores i w)) = remove1 n (stored w) \<and>
            stored (snd (delete Throws i w)) = stored w \<and>
            console (snd (delete Throws i w))
              = console (snd (getAll w)) @ [''Error saving to localStorage:'']) \<and>
         (i \<notin> note_id ` set (stored w) \<longrightarrow>
            delete outcome i w = (False, snd (getAll w)) \<and>
            slot (snd (delete outcome i w)) = slot w \<and>
            stored (snd (delete outcome i w)) = stored w)"
proof (intro conjI allI impI)
  fix n assume n: "n \<in> set (stored w) \<and> note_id n = i"
  then have len: "length (filter (\<lambda>m. note_id m \<noteq> i) (stored w)) \<noteq> length (stored w)"
    using length_filter_present [of n "stored w" note_id] by simp
  show "fst (delete outcome i w) = True"
    using len by (simp add: delete_unfold)
  show "stored (snd (delete Stores i w)) = remove1 n (stored w)"
    using len n assms filter_neq_remove1 [of note_id "stored w" n]
    by (simp add: delete_unfold stored_saveAll_Stores)
  show "stored (snd (delete Throws i w)) = stored w"
    using len by (simp add: delete_unfold stored_saveAll_Throws stored_getAll)
  show "console (snd (delete Throws i w))
          = console (snd (getAll w)) @ [''Error saving to localStorage:'']"
    using len by (simp add: delete_unfold console_saveAll_Throws)
next
  assume "i \<notin> note_id ` set (stored w)"
  then have same: "filter (\<lambda>m. note_id m \<noteq> i) (stored w) = stored w"
    by (rule filter_absent)
  then show d: "delete outcome i w = (False, snd (getAll w))"
    by (simp add: delete_unfold)
  show "slot (snd (delete outcome i w)) = slot w"
    by (simp add: d slot_getAll)
  show "stored (snd (delete outcome i w)) = stored w"
    by (simp add: d stored_getAll)
qed

theorem delete_spec_witness:
  "distinct (map note_id (stored two_notes_world)) \<and>
   milk_note \<in> set (stored two_notes_world) \<and> note_id milk_note = ''n1'' \<and>
   fst (delete Stores ''n1'' two_notes_world) = True \<and>
   stored (snd (delete Stores ''n1'' two_notes_world)) = [cleanup_note] \<and>
   stored (snd (delete Throws ''n1'' two_notes_world)) = [milk_note, cleanup_note] \<and>
   ''n3'' \<notin> note_id ` set (stored two_notes_world) \<and>
   delete Stores ''n3'' two_notes_world = (False, two_notes_world)"
proof -
  have d: "distinct (map note_id (stored two_notes_world))"
    by (simp add: stored_two_notes_world milk_note_def cleanup_note_def)
  have m: "milk_note \<in> set (stored two_notes_world) \<and> note_id milk_note = ''n1''"
    by (simp add: stored_two_notes_world milk_note_def)
  have a: "''n3'' \<notin> note_id ` set (stored two_notes_world)"
    by (simp add: stored_two_notes_world milk_note_def cleanup_note_def)
  from delete_spec [OF d, of "''n1''" Stores] m
  have "fst (delete Stores ''n1'' two_notes_world) = True \<and>
        stored (snd (delete Stores ''n1'' two_notes_world))
          = remove1 milk_note (stored two_notes_world) \<and>
        stored (snd (delete Throws ''n1'' two_notes_world)) = stored two_notes_world"
    by blast
  moreover from delete_spec [OF d, of "''n3''" Stores] a
  have "delete Stores ''n3'' two_notes_world = (False, snd (getAll two_notes_world))"
    by blast
  ultimately show ?thesis
    using d m a by (simp add: stored_two_notes_world getAll_two_notes_world)
qed

text \<open>
  The claim as stated fails when the write fails: \<^verbatim>\<open>delete\<close> returns \<^verbatim>\<open>true\<close> and the
  note is still in the collection.
\<close>

theorem delete_failed_write_counterexample:
  "distinct (map note_id (stored two_notes_world)) \<and>
   milk_note \<in> set (stored two_notes_world) \<and> note_id milk_note = ''n1'' \<and>
   fst (delete Throws ''n1'' two_notes_world) = True \<and>
   milk_note \<in> set (stored (snd (delete Throws ''n1'' two_notes_world)))"
  by (simp add: delete_unfold stored_saveAll_Throws stored_getAll stored_two_notes_world)
     (simp add: milk_note_def cleanup_note_def)

section \<open>The order of \<^verbatim>\<open>createdAt\<close> and \<^verbatim>\<open>updatedAt\<close>\<close>

text \<open>
  C8 (as amended). Assuming that no clock read is earlier than a previous one,
  \<open>createdAt \<le> updatedAt\<close> holds for every note of the collection at all times: from a
  collection where it holds (with no stamp later than the clock), it holds after every
  step of every sequence of \<^verbatim>\<open>create\<close> calls, \<^verbatim>\<open>update\<close> calls with a bundle of the
  declared type, which has no \<^verbatim>\<open>createdAt\<close>, and \<^verbatim>\<open>delete\<close> calls; and it holds for the
  note a \<^verbatim>\<open>create\<close> call returns.
\<close>

theorem createdAt_le_updatedAt:
  "(stampsOrdered now (stored w) \<and> sorted (now # concat (map clockReads calls)) \<and>
    list_all wellTyped calls \<longrightarrow>
      (\<forall>k. \<forall>n \<in> set (stored (run (take k calls) w)). createdAt n \<le> updatedAt n)) \<and>
   (t1 \<le> t2 \<longrightarrow>
      createdAt (fst (create uuid t1 t2 outcome inp w'))
        \<le> updatedAt (fst (create uuid t1 t2 outcome inp w')))"
proof (intro conjI impI allI)
  fix k
  assume a: "stampsOrdered now (stored w) \<and> sorted (now # concat (map clockReads calls)) \<and>
    list_all wellTyped calls"
  then have "sorted (now # concat (map clockReads (take k calls)))"
    and "list_all wellTyped (take k calls)"
    by (simp_all add: sorted_reads_take list_all_take del: sorted_wrt.simps)
  with a have "stampsOrdered (last (now # concat (map clockReads (take k calls))))
                 (stored (run (take k calls) w))"
    by (intro run_stampsOrdered) simp_all
  then show "\<forall>n \<in> set (stored (run (take k calls) w)). createdAt n \<le> updatedAt n"
    by (simp add: stampsOrdered_def list_all_iff)
next
  assume "t1 \<le> t2"
  then show "createdAt (fst (create uuid t1 t2 outcome inp w'))
        \<le> updatedAt (fst (create uuid t1 t2 outcome inp w'))"
    by (simp add: create_unfold)
qed

theorem createdAt_le_updatedAt_witness:
  "stampsOrdered 2000 (stored two_notes_world) \<and>
   sorted (2000 # concat (map clockReads session)) \<and>
   list_all wellTyped session \<and>
   list_all (\<lambda>n. createdAt n \<le> updatedAt n) (stored (run session two_notes_world)) \<and>
   (3000 :: int) \<le> 3001 \<and>
   createdAt (fst (create ''n3'' 3000 3001 Stores snippet_input two_notes_world))
     \<le> updatedAt (fst (create ''n3'' 3000 3001 Stores snippet_input two_notes_world))"
proof -
  have h1: "stampsOrdered 2000 (stored two_notes_world)"
    by (simp add: stored_two_notes_world stampsOrdered_def milk_note_def cleanup_note_def)
  have d: "declared done_bundle"
    by (simp add: declared_def done_bundle_def)
  have h2: "sorted (2000 # concat (map clockReads session))"
    by (simp add: session_def)
  have h3: "list_all wellTyped session"
    by (simp add: session_def d)
  have h4: "(3000 :: int) \<le> 3001"
    by simp
  note t = createdAt_le_updatedAt [where now = 2000 and w = two_notes_world
    and calls = session and ?t1.0 = 3000 and ?t2.0 = 3001 and uuid = "''n3''"
    and outcome = Stores and inp = snippet_input and w' = two_notes_world]
  from t h1 h2 h3
  have "\<forall>n \<in> set (stored (run (take (length session) session) two_notes_world)).
          createdAt n \<le> updatedAt n"
    by blast
  then have c1: "list_all (\<lambda>n. createdAt n \<le> updatedAt n) (stored (run session two_notes_world))"
    by (simp add: list_all_iff)
  from t h4
  have c2: "createdAt (fst (create ''n3'' 3000 3001 Stores snippet_input two_notes_world))
     \<le> updatedAt (fst (create ''n3'' 3000 3001 Stores snippet_input two_notes_world))"
    by blast
  from h1 h2 h3 c1 h4 c2 show ?thesis
    by (intro conjI)
qed

text \<open>
  The claim as stated, for every \<^verbatim>\<open>update\<close>, fails: a bundle that carries a
  \<^verbatim>\<open>createdAt\<close> later than the clock is merged like any other, and the note's
  \<^verbatim>\<open>createdAt\<close> is then later than the \<^verbatim>\<open>updatedAt\<close> the call stamps.
\<close>

theorem update_restamps_createdAt_counterexample:
  "stampsOrdered 2000 (stored two_notes_world) \<and>
   sorted (2000 # concat (map clockReads [Update 3000 Stores ''n1'' restamping_bundle])) \<and>
   \<not> list_all (\<lambda>n. createdAt n \<le> updatedAt n)
        (stored (run [Update 3000 Stores ''n1'' restamping_bundle] two_notes_world))"
proof -
  have "stampsOrdered 2000 (stored two_notes_world)"
    by (simp add: stored_two_notes_world stampsOrdered_def milk_note_def cleanup_note_def)
  moreover have "sorted (2000 # concat (map clockReads
                   [Update 3000 Stores ''n1'' restamping_bundle]))"
    by simp
  moreover have "\<not> list_all (\<lambda>n. createdAt n \<le> updatedAt n)
        (stored (run [Update 3000 Stores ''n1'' restamping_bundle] two_notes_world))"
    by (simp add: run_def stored_update stored_two_notes_world)
       (simp add: milk_note_def cleanup_note_def restamping_bundle_def merge_def)
  ultimately show ?thesis
    by (intro conjI)
qed

section \<open>The claims about \<^verbatim>\<open>filter\<close>\<close>

text \<open>
  C1 (as amended). For every list of notes and every filter criteria whose search
  string and note texts lie within U+0000..U+00FF, \<^verbatim>\<open>filter\<close> returns exactly the
  subsequence of the notes that satisfy both (a) when the search string is not empty
  after trimming, a case-insensitive substring match of the search string against the
  content OR the title OR any tag, and (b) when the type filter is not \<^verbatim>\<open>'all'\<close>,
  equality of the note's type with the type filter. An empty or whitespace-only search
  string places no restriction: with it and the type filter \<^verbatim>\<open>'all'\<close> the result is the
  input sequence, whatever the notes.
\<close>

theorem filter_spec:
  "(list_all isLatin1 (searchQuery filters) \<and> list_all latin1Note notes \<longrightarrow>
      filter_notes notes filters = filter (satisfies filters) notes) \<and>
   (list_all isWhiteSpace q \<longrightarrow>
      filter_notes notes \<lparr>searchQuery = q, typeFilter = Some AllTypes\<rparr> = notes)"
proof (intro conjI impI)
  assume a: "list_all isLatin1 (searchQuery filters) \<and> list_all latin1Note notes"
  have "satisfies filters n \<longleftrightarrow>
          (trim (searchQuery filters) \<noteq> [] \<longrightarrow>
             noteMatches (toLowerCase (searchQuery filters)) n) \<and>
          (\<forall>t. typeFilter filters = Some (Only t) \<longrightarrow> note_type n = t)"
    if "n \<in> set notes" for n
  proof -
    from a that have "latin1Note n"
      by (simp add: list_all_iff)
    with a show ?thesis
      by (simp add: satisfies_def noteMatches_latin1)
  qed
  then have "filter (satisfies filters) notes =
     filter (\<lambda>note. (trim (searchQuery filters) \<noteq> [] \<longrightarrow>
                        noteMatches (toLowerCase (searchQuery filters)) note) \<and>
                     (\<forall>t. typeFilter filters = Some (Only t) \<longrightarrow> note_type note = t)) notes"
    by (intro filter_cong) simp_all
  then show "filter_notes notes filters = filter (satisfies filters) notes"
    by (simp add: filter_notes_unfold)
next
  assume "list_all isWhiteSpace q"
  then show "filter_notes notes \<lparr>searchQuery = q, typeFilter = Some AllTypes\<rparr> = notes"
    by (simp add: filter_notes_def trim_whitespace)
qed

theorem filter_spec_witness:
  "list_all isLatin1 (latin ''CLEANUP'') \<and>
   list_all latin1Note [milk_note, cleanup_note] \<and>
   filter (satisfies \<lparr>searchQuery = latin ''CLEANUP'', typeFilter = Some (Only TTodo)\<rparr>)
     [milk_note, cleanup_note] = [cleanup_note] \<and>
   filter (satisfies \<lparr>searchQuery = latin ''milk'', typeFilter = Some AllTypes\<rparr>)
     [milk_note, cleanup_note] = [milk_note] \<and>
   filter (satisfies \<lparr>searchQuery = latin ''home'', typeFilter = None\<rparr>)
     [milk_note, cleanup_note] = [milk_note] \<and>
   list_all isWhiteSpace (latin ''  '') \<and>
   filter_notes [milk_note, cleanup_note]
     \<lparr>searchQuery = latin ''  '', typeFilter = Some AllTypes\<rparr> = [milk_note, cleanup_note]"
proof -
  have n: "list_all latin1Note [milk_note, cleanup_note]"
    by (simp add: latin1Note_def milk_note_def cleanup_note_def latin_def list_all_iff)
  have l: "list_all isLatin1 (latin s)" for s
    by (simp add: latin_def list_all_iff)
  have e1: "filter_notes [milk_note, cleanup_note]
              \<lparr>searchQuery = latin ''CLEANUP'', typeFilter = Some (Only TTodo)\<rparr>
              = [cleanup_note]"
    by code_simp
  have e2: "filter_notes [milk_note, cleanup_note]
              \<lparr>searchQuery = latin ''milk'', typeFilter = Some AllTypes\<rparr> = [milk_note]"
    by code_simp
  have e3: "filter_notes [milk_note, cleanup_note]
              \<lparr>searchQuery = latin ''home'', typeFilter = None\<rparr> = [milk_note]"
    by code_simp
  have w: "list_all isWhiteSpace (latin ''  '')"
    by code_simp
  have c: "filter (satisfies \<lparr>searchQuery = latin s, typeFilter = tf\<rparr>)
             [milk_note, cleanup_note]
           = filter_notes [milk_note, cleanup_note] \<lparr>searchQuery = latin s, typeFilter = tf\<rparr>"
    for s tf
    using filter_spec [THEN conjunct1, THEN mp,
      of "\<lparr>searchQuery = latin s, typeFilter = tf\<rparr>" "[milk_note, cleanup_note]"] l n
    by simp
  note c1 = trans [OF c e1]
  note c2 = trans [OF c e2]
  note c3 = trans [OF c e3]
  note c4 = filter_spec [THEN conjunct2, THEN mp, OF w, of "[milk_note, cleanup_note]"]
  from l n c1 c2 c3 w c4 show ?thesis
    by (intro conjI)
qed

text \<open>
  The claim as stated, for every text, fails beyond U+0000..U+00FF, where
  \<^verbatim>\<open>toLowerCase\<close> depends on the place of a letter: the capital sigma that ends the
  content becomes a final sigma, the capital sigma searched for becomes a small sigma,
  and the note is not kept although the search string occurs in its content as it is.
\<close>

theorem filter_final_sigma_counterexample:
  "trim (searchQuery sigma_search) \<noteq> [] \<and>
   occursIn (searchQuery sigma_search) (content odos_note) \<and>
   satisfies sigma_search odos_note \<and>
   filter_notes [odos_note] sigma_search = [] \<and>
   filter_notes [odos_note] sigma_search \<noteq> filter (satisfies sigma_search) [odos_note]"
proof -
  have t: "trim (searchQuery sigma_search) \<noteq> []"
    by (simp add: sigma_search_def trim_def)
  have "content odos_note
          = [Capital GkOmicron, Capital GkDelta, Capital GkOmicron] @ [Capital GkSigma] @ []"
    by (simp add: odos_note_def)
  then have o: "occursIn (searchQuery sigma_search) (content odos_note)"
    unfolding occursIn_def sigma_search_def by (metis NoteFilters.select_convs(1))
  have "list_all2 sameLetter (searchQuery sigma_search) (searchQuery sigma_search)"
    by (simp add: sigma_search_def sameLetter_def)
  with o have "occursIgnoringCase (searchQuery sigma_search) (content odos_note)"
    unfolding occursIgnoringCase_def by blast
  then have s: "satisfies sigma_search odos_note"
    by (simp add: satisfies_def someField_def) (simp add: sigma_search_def)
  have e: "filter_notes [odos_note] sigma_search = []"
    by code_simp
  from s have "filter (satisfies sigma_search) [odos_note] = [odos_note]"
    by simp
  with e have d: "filter_notes [odos_note] sigma_search \<noteq> filter (satisfies sigma_search) [odos_note]"
    by simp
  from t o s e d show ?thesis
    by (intro conjI)
qed

text \<open>
  C9. \<^verbatim>\<open>filter\<close> matches the search string verbatim: trimming only decides whether
  there is a search restriction. When the search string is not empty after trimming,
  the notes kept are those where the lower-cased, untrimmed search string is a
  substring of the lower-cased content, title or a tag (and then the type filter
  applies). So the search string \<^verbatim>\<open>"milk "\<close>, with its trailing space, does not match a
  note whose content is \<^verbatim>\<open>"Buy milk"\<close>, which the trimmed string would match.
\<close>

theorem filter_query_untrimmed:
  "(trim q \<noteq> [] \<longrightarrow>
      filter_notes notes \<lparr>searchQuery = q, typeFilter = tf\<rparr>
        = filter_notes
            (filter (someField (\<lambda>s. occursIn (toLowerCase q) (toLowerCase s))) notes)
            \<lparr>searchQuery = [], typeFilter = tf\<rparr>) \<and>
   filter_notes [milk_note] \<lparr>searchQuery = latin ''milk '', typeFilter = Some AllTypes\<rparr> = [] \<and>
   filter_notes [milk_note]
     \<lparr>searchQuery = trim (latin ''milk ''), typeFilter = Some AllTypes\<rparr> = [milk_note]"
proof (intro conjI impI)
  have "noteMatches (toLowerCase q) = someField (\<lambda>s. occursIn (toLowerCase q) (toLowerCase s))"
    by (rule ext) (rule noteMatches_iff)
  moreover assume "trim q \<noteq> []"
  ultimately show "filter_notes notes \<lparr>searchQuery = q, typeFilter = tf\<rparr>
        = filter_notes
            (filter (someField (\<lambda>s. occursIn (toLowerCase q) (toLowerCase s))) notes)
            \<lparr>searchQuery = [], typeFilter = tf\<rparr>"
    by (simp add: filter_notes_def trim_def)
next
  show "filter_notes [milk_note]
          \<lparr>searchQuery = latin ''milk '', typeFilter = Some AllTypes\<rparr> = []"
    by code_simp
  show "filter_notes [milk_note]
          \<lparr>searchQuery = trim (latin ''milk ''), typeFilter = Some AllTypes\<rparr> = [milk_note]"
    by code_simp
qed

theorem filter_query_untrimmed_witness:
  "trim (latin ''milk '') \<noteq> [] \<and>
   filter_notes
     (filter (someField (\<lambda>s. occursIn (toLowerCase (latin ''milk '')) (toLowerCase s)))
        [milk_note])
     \<lparr>searchQuery = [], typeFilter = Some AllTypes\<rparr> = []"
proof -
  have h: "trim (latin ''milk '') \<noteq> []"
    by code_simp
  have e: "filter_notes [milk_note]
             \<lparr>searchQuery = latin ''milk '', typeFilter = Some AllTypes\<rparr> = []"
    by code_simp
  note t = filter_query_untrimmed [THEN conjunct1, THEN mp, OF h,
    of "[milk_note]" "Some AllTypes"]
  from h trans [OF t [symmetric] e] show ?thesis
    by (intro conjI)
qed

text \<open>
  C10. When the \<^verbatim>\<open>typeFilter\<close> field is omitted, \<^verbatim>\<open>filter\<close> applies no type restriction:
  for every list of notes and every search query the result is the one obtained with
  \<^verbatim>\<open>typeFilter: 'all'\<close>.
\<close>

theorem filter_typeFilter_omitted:
  "filter_notes notes \<lparr>searchQuery = q, typeFilter = None\<rparr>
     = filter_notes notes \<lparr>searchQuery = q, typeFilter = Some AllTypes\<rparr>"
  by (simp add: filter_notes_def)

end
